theory Spec2Isabelle
  imports Main "HOL-Library.Word" "HOL-Library.Log_Nat" "HOL-Library.Sublist"
begin

section \<open>JavaScript numbers\<close>

text \<open>
  The stain-area calculator is TypeScript; every arithmetic value is an IEEE 754 binary64
  number. A finite binary64 value is a rational, and each operation returns the exact
  result rounded to 53 significant bits, ties to even. \<open>fl\<close> is that rounding. The values
  met here (channel sums below 256, areas of images, ratios of counters) are far from
  overflow and from the subnormal range, so the rounding needs neither.  NaN only arises
  from reading a typed array out of range and is modelled where it arises, as \<open>None\<close>.
\<close>

type_synonym number = rat

definition roundTiesToEven :: "rat \<Rightarrow> int" where
  "roundTiesToEven r =
     (let f = \<lfloor>r\<rfloor>; d = r - of_int f
      in if d < 1 / 2 then f else if 1 / 2 < d then f + 1 else if even f then f else f + 1)"

text \<open>The binary exponent \<open>\<lfloor>log\<^sub>2 \<bar>v\<bar>\<rfloor>\<close> of a non-zero rational, computed on integers.\<close>

definition exponent :: "rat \<Rightarrow> int" where
  "exponent v =
     (if 1 \<le> \<bar>v\<bar> then bitlen \<lfloor>\<bar>v\<bar>\<rfloor> - 1 else - bitlen (\<lceil>1 / \<bar>v\<bar>\<rceil> - 1))"

definition fl :: "rat \<Rightarrow> number" where
  "fl v = (if v = 0 then 0
           else (let u = 2 powi (exponent v - 52) in of_int (roundTiesToEven (v / u)) * u))"

text \<open>
  \<open>Number.prototype.toFixed(4)\<close> followed by \<open>Number(...)\<close>: the integer \<open>n\<close> for which
  \<open>n / 10\<^sup>4\<close> is closest to the value (the larger one on a tie), read back as a number.
  From \<open>10\<^sup>2\<^sup>1\<close> on, \<open>toFixed\<close> prints the number itself.
\<close>

definition toFixed4 :: "number \<Rightarrow> rat" where
  "toFixed4 v =
     (if 10 ^ 21 \<le> \<bar>v\<bar> then v
      else if v < 0 then - (of_int \<lfloor>- v * 10000 + 1 / 2\<rfloor> / 10000)
      else of_int \<lfloor>v * 10000 + 1 / 2\<rfloor> / 10000)"

definition Number :: "rat \<Rightarrow> number" where
  "Number s = fl s"

section \<open>Pixel buffers and the canvas\<close>

type_synonym byte = "8 word"

text \<open>One pixel: red, green, blue, alpha.\<close>

type_synonym rgba = "byte \<times> byte \<times> byte \<times> byte"

record Dimensions =
  width :: nat
  height :: nat

text \<open>\<open>ImageData\<close>: \<open>data\<close> is the \<open>Uint8ClampedArray\<close>, four bytes a pixel, row by row.\<close>

record ImageData = Dimensions +
  data :: "byte list"

text \<open>
  A decoded image and the bitmap of a canvas, one entry a pixel, row by row, each pixel
  as \<open>getImageData\<close> reports it (not premultiplied).
\<close>

record HTMLImageElement = Dimensions +
  bitmap :: "rgba list"

record HTMLCanvasElement = Dimensions +
  surface :: "rgba list"

record Point =
  x :: int
  y :: int

datatype error =
  ImageRequired       \<comment> \<open>\<open>Error('Image is required for calculation')\<close>\<close>
  | PointsRequired    \<comment> \<open>\<open>Error('At least 3 points are required for calculation')\<close>\<close>
  | NoCanvasContext   \<comment> \<open>\<open>Error('Could not get canvas context')\<close>\<close>
  | IndexSizeError    \<comment> \<open>the \<open>DOMException\<close> of \<open>getImageData\<close> on an empty rectangle\<close>

text \<open>
  The browser's canvas is not code of the repository; the model keeps what the HTML
  standard fixes and the service relies on.
  \<^item> \<open>document.createElement('canvas')\<close> with its width and height set is a bitmap of
    transparent black.
  \<^item> \<open>drawImage(image, 0, 0)\<close> composites the image over the bitmap: an opaque pixel
    replaces what is below it, a fully transparent one leaves it. (A pixel in between is
    taken as replacing it, which on the fresh bitmap drawn on here holds up to the
    rounding of premultiplied alpha.)
  \<^item> \<open>getImageData(0, 0, canvas.width, canvas.height)\<close> raises \<open>IndexSizeError\<close> on
    an empty rectangle and otherwise returns \<open>4 * width * height\<close> bytes. (A record
    whose list of pixels has another length is no canvas; it is read as if cut, or
    filled with transparent black, to that size.)
  \<^item> \<open>putImageData(imageData, 0, 0)\<close> stores the pixels back.

  The width and height of an image are those of its bitmap: the application makes its
  images from data URLs and gives them no other size before it draws them. The
  coordinates of a point are integers, as \<open>Math.floor\<close> leaves them in
  \<open>generateRandomPoints\<close>.
\<close>

definition load :: "'a list \<Rightarrow> nat \<Rightarrow> 'a option" where
  "load xs i = (if i < length xs then Some (xs ! i) else None)"

definition createCanvas :: "nat \<Rightarrow> nat \<Rightarrow> HTMLCanvasElement" where
  "createCanvas w h = \<lparr>width = w, height = h, surface = replicate (w * h) (0, 0, 0, 0)\<rparr>"

definition imagePixel :: "HTMLImageElement \<Rightarrow> nat \<Rightarrow> nat \<Rightarrow> rgba option" where
  "imagePixel img px py =
     (if px < width img \<and> py < height img
      then load (bitmap img) (py * width img + px) else None)"

definition composite :: "rgba option \<Rightarrow> rgba \<Rightarrow> rgba" where
  "composite src dst =
     (case src of None \<Rightarrow> dst
      | Some (r, g, b, a) \<Rightarrow> if a = 0 then dst else (r, g, b, a))"

definition drawImage :: "HTMLImageElement \<Rightarrow> HTMLCanvasElement \<Rightarrow> HTMLCanvasElement" where
  "drawImage img canvas =
     canvas\<lparr>surface :=
       map (\<lambda>(k, dst). composite (imagePixel img (k mod width canvas) (k div width canvas)) dst)
         (enumerate 0 (surface canvas))\<rparr>"

definition flatten :: "rgba list \<Rightarrow> byte list" where
  "flatten ps = concat (map (\<lambda>(r, g, b, a). [r, g, b, a]) ps)"

definition getImageData :: "HTMLCanvasElement \<Rightarrow> error + ImageData" where
  "getImageData canvas =
     (if width canvas = 0 \<or> height canvas = 0 then Inl IndexSizeError
      else Inr \<lparr>width = width canvas, height = height canvas,
                data = flatten (take (width canvas * height canvas)
                         (surface canvas @ replicate (width canvas * height canvas) (0, 0, 0, 0)))\<rparr>)"

fun unflatten :: "byte list \<Rightarrow> rgba list" where
  "unflatten (r # g # b # a # rest) = (r, g, b, a) # unflatten rest"
| "unflatten _ = []"

definition putImageData :: "ImageData \<Rightarrow> HTMLCanvasElement \<Rightarrow> HTMLCanvasElement" where
  "putImageData imageData canvas =
     canvas\<lparr>surface :=
       map (\<lambda>(k, dst).
              if k mod width canvas < width imageData \<and> k div width canvas < height imageData
              then (case load (unflatten (data imageData))
                           (k div width canvas * width imageData + k mod width canvas) of
                      Some p \<Rightarrow> p | None \<Rightarrow> dst)
              else dst)
         (enumerate 0 (surface canvas))\<rparr>"

section \<open>The upload component: binarization and point sampling\<close>

text \<open>
  \<open>0.3 * R + 0.59 * G + 0.11 * B\<close> as JavaScript evaluates it: the three literals are
  the nearest numbers to the decimals, each product and each sum is rounded.
\<close>

definition grayscale :: "byte \<Rightarrow> byte \<Rightarrow> byte \<Rightarrow> number" where
  "grayscale r g b =
     fl (fl (fl (fl (3 / 10) * of_nat (unat r)) + fl (fl (59 / 100) * of_nat (unat g)))
         + fl (fl (11 / 100) * of_nat (unat b)))"

text \<open>
  The luminance of the pixel starting at index \<open>i\<close>. A read past the end of the typed
  array is \<open>undefined\<close>, the sum then is NaN (\<open>None\<close>), and \<open>NaN > 128\<close> is false.
\<close>

definition grayscaleAt :: "byte list \<Rightarrow> nat \<Rightarrow> number option" where
  "grayscaleAt binaryData i =
     (case (load binaryData i, load binaryData (i + 1), load binaryData (i + 2)) of
        (Some r, Some g, Some b) \<Rightarrow> Some (grayscale r g b)
      | _ \<Rightarrow> None)"

definition binaryValue :: "number option \<Rightarrow> byte" where
  "binaryValue gs = (case gs of Some v \<Rightarrow> if 128 < v then 255 else 0 | None \<Rightarrow> 0)"

text \<open>
  The loop of \<open>convertToBinary\<close>, from index \<open>i\<close> on. A store past the end of a typed
  array is ignored, as \<open>list_update\<close> does.
\<close>

function binarizeLoop :: "byte list \<Rightarrow> nat \<Rightarrow> byte list" where
  "binarizeLoop binaryData i =
     (if i < length binaryData then
        (let v = binaryValue (grayscaleAt binaryData i)
         in binarizeLoop (binaryData[i + 2 := v, i + 1 := v, i := v, i + 3 := 255]) (i + 4))
      else binaryData)"
  by pat_completeness auto
termination
  by (relation "measure (\<lambda>(d, i). length d - i)") auto

declare binarizeLoop.simps [simp del]

definition binarize :: "byte list \<Rightarrow> byte list" where
  "binarize imageData = binarizeLoop imageData 0"

definition convertToBinary :: "HTMLCanvasElement \<Rightarrow> error + HTMLCanvasElement" where
  "convertToBinary canvas =
     (case getImageData canvas of
        Inl e \<Rightarrow> Inl e
      | Inr imageData \<Rightarrow>
          Inr (putImageData
                 \<lparr>width = width canvas, height = height canvas, data = binarize (data imageData)\<rparr>
                 canvas))"

text \<open>
  \<open>generateRandomPoints(n)\<close>. \<open>random k\<close> is what the \<open>k\<close>-th call of \<open>Math.random()\<close>
  returns; the point of round \<open>i\<close> takes the calls \<open>2 * i\<close> (for \<open>x\<close>) and \<open>2 * i + 1\<close>.
\<close>

function randomLoop :: "(nat \<Rightarrow> number) \<Rightarrow> nat \<Rightarrow> nat \<Rightarrow> int \<Rightarrow> nat \<Rightarrow> Point list \<Rightarrow> Point list" where
  "randomLoop random w h n i points =
     (if int i < n then
        randomLoop random w h n (i + 1)
          (points @ [\<lparr>x = \<lfloor>fl (random (2 * i) * of_nat w)\<rfloor>,
                       y = \<lfloor>fl (random (2 * i + 1) * of_nat h)\<rfloor>\<rparr>])
      else points)"
  by pat_completeness auto
termination
  by (relation "measure (\<lambda>(random, w, h, n, i, points). nat (n - int i))") auto

declare randomLoop.simps [simp del]

definition generateRandomPoints :: "(nat \<Rightarrow> number) \<Rightarrow> HTMLCanvasElement \<Rightarrow> int \<Rightarrow> error + Point list" where
  "generateRandomPoints random canvas n = Inr (randomLoop random (width canvas) (height canvas) n 0 [])"

section \<open>The calculation service\<close>

record CalculationInput =
  points :: "Point list option"
  inputImage :: "HTMLImageElement option"

record CalculationResult =
  area :: number
  resultPoints :: "Point list"
  originalImage :: HTMLImageElement
  modifiedImage :: HTMLImageElement

text \<open>
  Whether \<open>canvas.getContext('2d')\<close> gives a context, at its call in \<open>overlayImage\<close>
  and at its call in \<open>getResults\<close>.
\<close>

record Browser =
  overlayContext :: bool
  resultContext :: bool

text \<open>
  The marker of a point: \<open>arc(x, y, 4, 0, 2 * Math.PI)\<close>, \<open>fill()\<close>, then
  \<open>stroke()\<close> with \<open>lineWidth = 2\<close>, both in \<open>rgba(255, 0, 0)\<close>. The pixel
  \<open>(px, py)\<close> is the unit square with corners \<open>(px, py)\<close> and \<open>(px + 1, py + 1)\<close>.
  \<open>fill()\<close> gives the pixels that lie wholly in the disc of radius 4 the fill colour;
  \<open>stroke()\<close> gives the stroke colour to those wholly in the band between the radii 3
  and 5. A pixel the outline of either shape crosses receives an anti-aliased blend, in a
  proportion the standard leaves to the browser; the model leaves such a pixel as it was.
  The pixels the model turns marker-red are so in every browser.
\<close>

definition cornerInside :: "int \<Rightarrow> Point \<Rightarrow> int \<Rightarrow> int \<Rightarrow> bool" where
  "cornerInside r c cx cy \<longleftrightarrow> (cx - x c)\<^sup>2 + (cy - y c)\<^sup>2 \<le> r\<^sup>2"

definition pixelInsideDisc :: "int \<Rightarrow> Point \<Rightarrow> nat \<Rightarrow> nat \<Rightarrow> bool" where
  "pixelInsideDisc r c px py \<longleftrightarrow>
     cornerInside r c (int px) (int py) \<and> cornerInside r c (int px + 1) (int py) \<and>
     cornerInside r c (int px) (int py + 1) \<and> cornerInside r c (int px + 1) (int py + 1)"

text \<open>The distance, along one axis, from the coordinate \<open>c\<close> to the interval \<open>[p, p + 1]\<close>.\<close>

definition axisGap :: "int \<Rightarrow> nat \<Rightarrow> int" where
  "axisGap c p = (if c < int p then int p - c else if int p + 1 < c then c - (int p + 1) else 0)"

definition pixelOutsideDisc :: "int \<Rightarrow> Point \<Rightarrow> nat \<Rightarrow> nat \<Rightarrow> bool" where
  "pixelOutsideDisc r c px py \<longleftrightarrow> r\<^sup>2 \<le> (axisGap (x c) px)\<^sup>2 + (axisGap (y c) py)\<^sup>2"

definition paint :: "(nat \<Rightarrow> nat \<Rightarrow> bool) \<Rightarrow> rgba \<Rightarrow> HTMLCanvasElement \<Rightarrow> HTMLCanvasElement" where
  "paint inside style canvas =
     canvas\<lparr>surface :=
       map (\<lambda>(k, dst). if inside (k mod width canvas) (k div width canvas) then style else dst)
         (enumerate 0 (surface canvas))\<rparr>"

definition fill :: "Point \<Rightarrow> HTMLCanvasElement \<Rightarrow> HTMLCanvasElement" where
  "fill point = paint (pixelInsideDisc 4 point) (255, 0, 0, 255)"

definition stroke :: "Point \<Rightarrow> HTMLCanvasElement \<Rightarrow> HTMLCanvasElement" where
  "stroke point =
     paint (\<lambda>px py. pixelInsideDisc 5 point px py \<and> pixelOutsideDisc 3 point px py) (255, 0, 0, 255)"

definition drawPoint :: "HTMLCanvasElement \<Rightarrow> Point \<Rightarrow> HTMLCanvasElement" where
  "drawPoint canvas point = stroke point (fill point canvas)"

definition overlayImage ::
  "Browser \<Rightarrow> HTMLImageElement \<Rightarrow> Point list \<Rightarrow> error + (ImageData \<times> ImageData)" where
  "overlayImage browser img pts =
     (let canvas = createCanvas (width img) (height img)
      in if \<not> overlayContext browser then Inl NoCanvasContext
         else (let drawn = drawImage img canvas
               in case getImageData drawn of
                    Inl e \<Rightarrow> Inl e
                  | Inr originalImageData \<Rightarrow>
                      (case getImageData (foldl drawPoint drawn pts) of
                         Inl e \<Rightarrow> Inl e
                       | Inr overlayImageData \<Rightarrow> Inr (overlayImageData, originalImageData))))"

text \<open>
  The loop of \<open>getPointsInside\<close>, from index \<open>i\<close> on. \<open>===\<close> of a read past the end
  (\<open>undefined\<close>) with a number is false.
\<close>

function countLoop :: "byte list \<Rightarrow> byte list \<Rightarrow> nat \<Rightarrow> nat \<Rightarrow> nat" where
  "countLoop overlayData originalData i pointsInside =
     (if i < length overlayData then
        countLoop overlayData originalData (i + 4)
          (if load originalData i = Some 0 \<and>
              load originalData (i + 1) = Some 0 \<and>
              load originalData (i + 2) = Some 0 \<and>
              load overlayData i = Some 255 \<and>
              load overlayData (i + 1) = Some 0 \<and>
              load overlayData (i + 2) = Some 0
           then pointsInside + 1 else pointsInside)
      else pointsInside)"
  by pat_completeness auto
termination
  by (relation "measure (\<lambda>(ov, og, i, n). length ov - i)") auto

declare countLoop.simps [simp del]

definition getPointsInside ::
  "Browser \<Rightarrow> Point list \<Rightarrow> HTMLImageElement \<Rightarrow> error + (ImageData \<times> nat)" where
  "getPointsInside browser pts img =
     (case overlayImage browser img pts of
        Inl e \<Rightarrow> Inl e
      | Inr (overlayImageData, originalImageData) \<Rightarrow>
          Inr (overlayImageData, countLoop (data overlayImageData) (data originalImageData) 0 0))"

text \<open>
  The value of the \<open>BehaviorSubject\<close> is the state of the service; \<open>addResult\<close> and
  \<open>getResults\<close> take it and return the new one.
\<close>

definition addResult :: "CalculationResult \<Rightarrow> CalculationResult list \<Rightarrow> CalculationResult list" where
  "addResult result results = results @ [result]"

definition estimate :: "number \<Rightarrow> nat \<Rightarrow> nat \<Rightarrow> number" where
  "estimate totalArea pointsInside totalPoints =
     Number (toFixed4 (fl (totalArea * fl (of_nat pointsInside / of_nat totalPoints))))"

text \<open>
  \<open>getResults\<close> returns what it throws or the list the observable then holds, and the
  state it leaves. The overlay goes through a second canvas and a PNG data URL into the
  image of the result.
\<close>

definition getResults ::
  "Browser \<Rightarrow> CalculationInput \<Rightarrow> CalculationResult list
     \<Rightarrow> (error + CalculationResult list) \<times> CalculationResult list" where
  "getResults browser input results =
     (case inputImage input of
        None \<Rightarrow> (Inl ImageRequired, results)
      | Some img \<Rightarrow>
          (case points input of
             None \<Rightarrow> (Inl PointsRequired, results)
           | Some pts \<Rightarrow>
               if length pts < 3 then (Inl PointsRequired, results)
               else (let totalArea = fl (of_nat (width img) * of_nat (height img))
                     in case getPointsInside browser pts img of
                          Inl e \<Rightarrow> (Inl e, results)
                        | Inr (overlayImageData, pointsInside) \<Rightarrow>
                            (let totalPoints = length pts;
                                 estimatedArea = estimate totalArea pointsInside totalPoints;
                                 canvas = createCanvas (width img) (height img)
                             in if \<not> resultContext browser then (Inl NoCanvasContext, results)
                                else (let shown = putImageData overlayImageData canvas;
                                          overlayImageDataImage =
                                            \<lparr>width = width img, height = height img,
                                             bitmap = surface shown\<rparr>;
                                          result =
                                            \<lparr>area = estimatedArea, resultPoints = pts,
                                             originalImage = img,
                                             modifiedImage = overlayImageDataImage\<rparr>;
                                          updated = addResult result results
                                      in (Inr updated, updated))))))"

section \<open>Properties\<close>

subsection \<open>What the statements speak of\<close>

text \<open>
  A bitmap that is not empty and has one entry for each of its \<open>width * height\<close>
  pixels, as every canvas that can be read and every decoded image has.
\<close>

definition validCanvas :: "HTMLCanvasElement \<Rightarrow> bool" where
  "validCanvas canvas \<longleftrightarrow>
     0 < width canvas \<and> 0 < height canvas \<and>
     length (surface canvas) = width canvas * height canvas"


text \<open>
  The rule of binarization for one pixel, and what the loop makes of the one to three
  bytes that are left over when the length of the array is no multiple of four (which
  the data of a canvas never is).
\<close>

definition binarizePixel :: "rgba \<Rightarrow> rgba" where
  "binarizePixel p =
     (case p of (r, g, b, a) \<Rightarrow>
        (let v = (if 128 < grayscale r g b then 255 else 0) in (v, v, v, 255)))"

definition tailRule :: "byte list \<Rightarrow> byte list" where
  "tailRule t =
     (case t of
        [r, g, b] \<Rightarrow> (let v = (if 128 < grayscale r g b then 255 else 0) in [v, v, v])
      | _ \<Rightarrow> map (\<lambda>_. 0) t)"

definition binaryPixel :: "rgba \<Rightarrow> bool" where
  "binaryPixel p \<longleftrightarrow> p = (0, 0, 0, 255) \<or> p = (255, 255, 255, 255)"



definition stain :: "rgba \<Rightarrow> bool" where
  "stain p \<longleftrightarrow> (case p of (r, g, b, a) \<Rightarrow> r = 0 \<and> g = 0 \<and> b = 0)"

text \<open>
  \<open>covered w point k\<close>: on a canvas \<open>w\<close> wide, the marker of \<open>point\<close> turns the
  pixel of index \<open>k\<close> marker-red. \<open>counted\<close> is the test of the loop of
  \<open>getPointsInside\<close> on one pixel. \<open>originalPixels\<close> and \<open>markedPixels\<close> are the
  two bitmaps that loop compares.
\<close>

definition covered :: "nat \<Rightarrow> Point \<Rightarrow> nat \<Rightarrow> bool" where
  "covered w point k \<longleftrightarrow>
     pixelInsideDisc 4 point (k mod w) (k div w) \<or>
     pixelInsideDisc 5 point (k mod w) (k div w) \<and> pixelOutsideDisc 3 point (k mod w) (k div w)"

definition counted :: "rgba \<Rightarrow> rgba \<Rightarrow> bool" where
  "counted original overlay \<longleftrightarrow>
     (case (original, overlay) of
        ((r, g, b, a), (r', g', b', a')) \<Rightarrow>
          r = 0 \<and> g = 0 \<and> b = 0 \<and> r' = 255 \<and> g' = 0 \<and> b' = 0)"

definition originalPixels :: "HTMLImageElement \<Rightarrow> rgba list" where
  "originalPixels img =
     map (\<lambda>k. composite (imagePixel img (k mod width img) (k div width img)) (0, 0, 0, 0))
       [0..<width img * height img]"

definition markedPixels :: "HTMLImageElement \<Rightarrow> Point list \<Rightarrow> rgba list" where
  "markedPixels img pts =
     map (\<lambda>(k, dst). if list_ex (\<lambda>p. covered (width img) p k) pts then (255, 0, 0, 255) else dst)
       (enumerate 0 (originalPixels img))"

definition isValidationError :: "error \<Rightarrow> bool" where
  "isValidationError e \<longleftrightarrow> e = ImageRequired \<or> e = PointsRequired"

definition fewerThanThree :: "Point list option \<Rightarrow> bool" where
  "fewerThanThree ps = (case ps of None \<Rightarrow> True | Some pts \<Rightarrow> length pts < 3)"

text \<open>The inputs of the witnesses and counterexamples.\<close>

definition okBrowser :: Browser where
  "okBrowser = \<lparr>overlayContext = True, resultContext = True\<rparr>"

definition solidImage :: "nat \<Rightarrow> nat \<Rightarrow> rgba \<Rightarrow> HTMLImageElement" where
  "solidImage w h colour = \<lparr>width = w, height = h, bitmap = replicate (w * h) colour\<rparr>"

definition blackImage2 :: HTMLImageElement where
  "blackImage2 = solidImage 2 2 (0, 0, 0, 255)"

definition blackImage10 :: HTMLImageElement where
  "blackImage10 = solidImage 10 10 (0, 0, 0, 255)"


definition threePoints :: "Point list" where
  "threePoints = [\<lparr>x = 0, y = 0\<rparr>, \<lparr>x = 1, y = 1\<rparr>, \<lparr>x = 0, y = 1\<rparr>]"

definition twoPoints :: "Point list" where
  "twoPoints = [\<lparr>x = 0, y = 0\<rparr>, \<lparr>x = 1, y = 1\<rparr>]"

definition tenPoints :: "Point list" where
  "tenPoints =
     [\<lparr>x = 2, y = 2\<rparr>, \<lparr>x = 5, y = 2\<rparr>, \<lparr>x = 8, y = 2\<rparr>,
      \<lparr>x = 2, y = 5\<rparr>, \<lparr>x = 5, y = 5\<rparr>, \<lparr>x = 8, y = 5\<rparr>,
      \<lparr>x = 2, y = 8\<rparr>, \<lparr>x = 5, y = 8\<rparr>, \<lparr>x = 8, y = 8\<rparr>,
      \<lparr>x = 5, y = 5\<rparr>]"

definition maskCanvas :: HTMLCanvasElement where
  "maskCanvas = \<lparr>width = 2, height = 1, surface = [(0, 0, 0, 255), (255, 255, 255, 255)]\<rparr>"


definition boundaryCanvas :: HTMLCanvasElement where
  "boundaryCanvas = \<lparr>width = 1, height = 1, surface = [(0, 175, 225, 255)]\<rparr>"


definition earlierResult :: CalculationResult where
  "earlierResult =
     \<lparr>area = 1, resultPoints = threePoints,
      originalImage = solidImage 1 1 (0, 0, 0, 255),
      modifiedImage = solidImage 1 1 (255, 0, 0, 255)\<rparr>"

definition fixedRandom :: "number \<Rightarrow> nat \<Rightarrow> number" where
  "fixedRandom v k = v"

subsection \<open>The loop of binarization, pixel by pixel\<close>

lemma flatten_Nil [simp]: "flatten [] = []"
  by (simp add: flatten_def)

lemma flatten_Cons [simp]: "flatten ((r, g, b, a) # ps) = r # g # b # a # flatten ps"
  by (simp add: flatten_def)

lemma flatten_append [simp]: "flatten (ps @ qs) = flatten ps @ flatten qs"
  by (simp add: flatten_def)

lemma length_flatten [simp]: "length (flatten ps) = 4 * length ps"
  by (induction ps) auto

lemma unflatten_flatten_tail: "length t < 4 \<Longrightarrow> unflatten (flatten ps @ t) = ps"
proof (induction ps)
  case Nil
  then show ?case
    by (cases t rule: unflatten.cases) auto
next
  case (Cons p ps)
  then show ?case by (cases p) auto
qed

lemma unflatten_flatten [simp]: "unflatten (flatten ps) = ps"
  using unflatten_flatten_tail [of "[]" ps] by simp

lemma flatten_unflatten:
  "flatten (unflatten d) @ drop (4 * length (unflatten d)) d = d \<and>
   length (drop (4 * length (unflatten d)) d) < 4"
proof (induction d rule: unflatten.induct)
  case (1 r g b a rest)
  have "drop (4 + 4 * length (unflatten rest)) (r # g # b # a # rest) =
        drop (4 * length (unflatten rest)) rest"
    by (simp add: drop_Cons')
  with 1 show ?case by simp
qed auto

lemma load_nth [simp]: "k < length xs \<Longrightarrow> load xs k = Some (xs ! k)"
  by (simp add: load_def)

lemma load_beyond [simp]: "length xs \<le> k \<Longrightarrow> load xs k = None"
  by (simp add: load_def)

lemma binarizeLoop_pixel:
  "binarizeLoop (flatten qs @ r # g # b # a # rest) (4 * length qs) =
   binarizeLoop (flatten (qs @ [binarizePixel (r, g, b, a)]) @ rest) (4 * length (qs @ [binarizePixel (r, g, b, a)]))"
  apply (subst binarizeLoop.simps)
  apply (simp add: grayscaleAt_def load_def nth_append binaryValue_def binarizePixel_def Let_def
      list_update_append add.commute)
  done

lemma binarizeLoop_done: "length d \<le> i \<Longrightarrow> binarizeLoop d i = d"
  by (subst binarizeLoop.simps) simp

lemma binarizeLoop_tail:
  "length t < 4 \<Longrightarrow> binarizeLoop (flatten qs @ t) (4 * length qs) = flatten qs @ tailRule t"
proof -
  assume "length t < 4"
  then consider "t = []" | a where "t = [a]" | a b where "t = [a, b]" | a b c where "t = [a, b, c]"
    by (cases t rule: unflatten.cases) (auto simp: length_Suc_conv)
  then show ?thesis
  proof cases
    case 1
    then show ?thesis by (simp add: binarizeLoop_done tailRule_def)
  next
    case 2
    then show ?thesis
      apply (subst binarizeLoop.simps)
      apply (simp add: grayscaleAt_def load_def nth_append binaryValue_def tailRule_def
          list_update_append binarizeLoop_done)
      done
  next
    case 3
    then show ?thesis
      apply (subst binarizeLoop.simps)
      apply (simp add: grayscaleAt_def load_def nth_append binaryValue_def tailRule_def
          list_update_append binarizeLoop_done)
      done
  next
    case 4
    then show ?thesis
      apply (subst binarizeLoop.simps)
      apply (simp add: grayscaleAt_def load_def nth_append binaryValue_def tailRule_def Let_def
          list_update_append binarizeLoop_done)
      done
  qed
qed

lemma binarizeLoop_flatten:
  "length t < 4 \<Longrightarrow>
   binarizeLoop (flatten qs @ flatten ps @ t) (4 * length qs) =
   flatten qs @ flatten (map binarizePixel ps) @ tailRule t"
proof (induction ps arbitrary: qs)
  case Nil
  then show ?case by (simp add: binarizeLoop_tail)
next
  case (Cons p ps)
  obtain r g b a where p: "p = (r, g, b, a)" by (cases p) auto
  show ?case
    using Cons.IH [OF Cons.prems, of "qs @ [binarizePixel p]"]
    by (simp add: p binarizeLoop_pixel binarizePixel_def Let_def)
qed

lemma binarize_closed_form:
  "binarize d =
   flatten (map binarizePixel (unflatten d)) @ tailRule (drop (4 * length (unflatten d)) d)"
proof -
  let ?t = "drop (4 * length (unflatten d)) d"
  have "binarize d = binarizeLoop (flatten [] @ flatten (unflatten d) @ ?t) (4 * length ([]::rgba list))"
    using flatten_unflatten [of d] by (simp add: binarize_def)
  also have "\<dots> = flatten [] @ flatten (map binarizePixel (unflatten d)) @ tailRule ?t"
    using flatten_unflatten [of d] by (intro binarizeLoop_flatten) simp
  finally show ?thesis by simp
qed

lemma grayscale_black: "grayscale 0 0 0 = 0"
  by (simp add: grayscale_def fl_def)

lemma grayscale_white: "grayscale 255 255 255 = 255"
  by code_simp

lemma binarizePixel_idem: "binarizePixel (binarizePixel p) = binarizePixel p"
  by (cases p) (simp add: binarizePixel_def Let_def grayscale_black grayscale_white)

lemma binarizePixel_comp: "binarizePixel \<circ> binarizePixel = binarizePixel"
  by (simp add: fun_eq_iff binarizePixel_idem)

lemma binarizePixel_fixed: "binaryPixel p \<Longrightarrow> binarizePixel p = p"
  by (auto simp: binaryPixel_def binarizePixel_def grayscale_black grayscale_white)


lemma length_tailRule [simp]: "length (tailRule t) = length t"
  by (cases t rule: unflatten.cases) (auto simp: tailRule_def Let_def split: list.splits)

lemma tailRule_idem: "length t < 4 \<Longrightarrow> tailRule (tailRule t) = tailRule t"
  by (cases t rule: unflatten.cases)
    (auto simp: tailRule_def Let_def grayscale_black grayscale_white split: list.splits)

lemma binarize_idem: "binarize (binarize d) = binarize d"
proof -
  let ?ps = "map binarizePixel (unflatten d)"
  let ?t = "tailRule (drop (4 * length (unflatten d)) d)"
  have t: "length ?t < 4" using flatten_unflatten [of d] by simp
  have d: "binarize d = flatten ?ps @ ?t" by (rule binarize_closed_form)
  have u: "unflatten (flatten ?ps @ ?t) = ?ps" using t by (rule unflatten_flatten_tail)
  have "binarize (flatten ?ps @ ?t) = flatten (map binarizePixel ?ps) @ tailRule ?t"
    by (subst binarize_closed_form) (simp add: u)
  also have "\<dots> = flatten ?ps @ ?t"
    using flatten_unflatten [of d] by (simp add: binarizePixel_comp tailRule_idem)
  finally show ?thesis by (simp add: d)
qed

lemma getImageData_valid:
  "validCanvas canvas \<Longrightarrow>
   getImageData canvas =
   Inr \<lparr>width = width canvas, height = height canvas, data = flatten (surface canvas)\<rparr>"
  by (simp add: getImageData_def validCanvas_def)

lemma putImageData_flatten:
  assumes "validCanvas canvas" and "length qs = width canvas * height canvas"
  shows "putImageData \<lparr>width = width canvas, height = height canvas, data = flatten qs\<rparr> canvas =
         canvas\<lparr>surface := qs\<rparr>"
proof -
  let ?w = "width canvas" and ?h = "height canvas"
  let ?f = "\<lambda>(k, dst). if k mod ?w < ?w \<and> k div ?w < ?h
              then (case load qs (k div ?w * ?w + k mod ?w) of Some p \<Rightarrow> p | None \<Rightarrow> dst)
              else dst"
  have len: "length (surface canvas) = length qs" and w: "0 < ?w"
    using assms by (simp_all add: validCanvas_def)
  have "map ?f (enumerate 0 (surface canvas)) = qs"
  proof (rule nth_equalityI)
    show "length (map ?f (enumerate 0 (surface canvas))) = length qs"
      using len by simp
  next
    fix k assume "k < length (map ?f (enumerate 0 (surface canvas)))"
    then have k: "k < length qs" using len by simp
    then have "k < ?h * ?w" using assms(2) by (simp add: mult.commute)
    then have "k div ?w < ?h" by (rule less_mult_imp_div_less)
    then show "map ?f (enumerate 0 (surface canvas)) ! k = qs ! k"
      using k w len by (simp add: nth_enumerate_eq)
  qed
  then have "canvas\<lparr>surface := map ?f (enumerate 0 (surface canvas))\<rparr> = canvas\<lparr>surface := qs\<rparr>"
    by (simp only:)
  moreover have "putImageData \<lparr>width = ?w, height = ?h, data = flatten qs\<rparr> canvas =
      canvas\<lparr>surface := map ?f (enumerate 0 (surface canvas))\<rparr>"
    by (simp add: putImageData_def cong: if_cong)
  ultimately show ?thesis
    by (simp only:)
qed

lemma convertToBinary_valid:
  assumes "validCanvas canvas"
  shows "convertToBinary canvas = Inr (canvas\<lparr>surface := map binarizePixel (surface canvas)\<rparr>)"
proof -
  have "binarize (flatten (surface canvas)) = flatten (map binarizePixel (surface canvas))"
    by (simp add: binarize_closed_form tailRule_def)
  moreover have "length (map binarizePixel (surface canvas)) = width canvas * height canvas"
    using assms by (simp add: validCanvas_def)
  ultimately show ?thesis
    using assms by (simp add: convertToBinary_def getImageData_valid putImageData_flatten)
qed

lemma validCanvas_binarized:
  "validCanvas canvas \<Longrightarrow> validCanvas (canvas\<lparr>surface := map binarizePixel (surface canvas)\<rparr>)"
  by (simp add: validCanvas_def)

subsection \<open>Binarization\<close>



text \<open>
  C5, as claimed: a pixel whose luminance is exactly 128 becomes background (255). The
  pixel \<open>(0, 175, 225)\<close> has luminance exactly 128, in exact arithmetic and as
  JavaScript computes it, and \<open>convertToBinary\<close> makes it black.
\<close>

theorem boundary_luminance_counterexample:
  "grayscale 0 175 225 = 128 \<and>
   3 / 10 * 0 + 59 / 100 * 175 + 11 / 100 * 225 = (128::rat) \<and>
   convertToBinary boundaryCanvas = Inr \<lparr>width = 1, height = 1, surface = [(0, 0, 0, 255)]\<rparr> \<and>
   convertToBinary boundaryCanvas \<noteq> Inr \<lparr>width = 1, height = 1, surface = [(255, 255, 255, 255)]\<rparr>"
proof -
  have g: "grayscale 0 175 225 = 128"
    by code_simp
  have "validCanvas boundaryCanvas"
    by (simp add: validCanvas_def boundaryCanvas_def)
  then have "convertToBinary boundaryCanvas =
      Inr \<lparr>width = 1, height = 1, surface = [(0, 0, 0, 255)]\<rparr>"
    by (simp add: convertToBinary_valid binarizePixel_def g boundaryCanvas_def)
  with g show ?thesis by simp
qed

text \<open>
  C5, amended: the comparison is strict, so a pixel whose luminance (the value of
  \<open>grayscale\<close>) is exactly 128 is stain: it becomes opaque black.
\<close>

theorem boundary_luminance_is_stain:
  assumes "validCanvas canvas" and "k < length (surface canvas)"
    and "surface canvas ! k = (r, g, b, a)" and "grayscale r g b = 128"
  shows "\<exists>mask. convertToBinary canvas = Inr mask \<and> surface mask ! k = (0, 0, 0, 255)"
  using assms by (simp add: convertToBinary_valid binarizePixel_def)

theorem boundary_luminance_is_stain_witness:
  "validCanvas boundaryCanvas \<and> surface boundaryCanvas ! 0 = (0, 175, 225, 255) \<and>
   grayscale 0 175 225 = 128 \<and>
   (\<exists>mask. convertToBinary boundaryCanvas = Inr mask \<and> surface mask ! 0 = (0, 0, 0, 255))"
proof -
  have g: "grayscale 0 175 225 = 128"
    by code_simp
  have v: "validCanvas boundaryCanvas"
    by (simp add: validCanvas_def boundaryCanvas_def)
  have p: "surface boundaryCanvas ! 0 = (0, 175, 225, 255)" and l: "0 < length (surface boundaryCanvas)"
    by (simp_all add: boundaryCanvas_def)
  show ?thesis
    using boundary_luminance_is_stain [OF v l p g] v p g by simp
qed

text \<open>
  C6. Binarization is idempotent. On the bytes of any image data, a second run of the loop
  changes nothing; on a canvas, \<open>convertToBinary\<close> applied to its own result returns
  that result; and a canvas that is already a mask (every pixel opaque black or opaque
  white) is returned as it is.
\<close>

theorem binarize_idempotent:
  "binarize (binarize d) = binarize d \<and>
   (validCanvas canvas \<longrightarrow>
      (\<exists>mask. convertToBinary canvas = Inr mask \<and> convertToBinary mask = Inr mask)) \<and>
   (validCanvas canvas \<and> list_all binaryPixel (surface canvas) \<longrightarrow>
      convertToBinary canvas = Inr canvas)"
proof (intro conjI impI)
  show "binarize (binarize d) = binarize d"
    by (rule binarize_idem)
next
  assume v: "validCanvas canvas"
  let ?mask = "canvas\<lparr>surface := map binarizePixel (surface canvas)\<rparr>"
  have "convertToBinary ?mask = Inr ?mask"
    using validCanvas_binarized [OF v]
    by (simp add: convertToBinary_valid binarizePixel_comp)
  with v show "\<exists>mask. convertToBinary canvas = Inr mask \<and> convertToBinary mask = Inr mask"
    by (simp add: convertToBinary_valid)
next
  assume "validCanvas canvas \<and> list_all binaryPixel (surface canvas)"
  then have v: "validCanvas canvas" and b: "list_all binaryPixel (surface canvas)"
    by simp_all
  from b have "map binarizePixel (surface canvas) = surface canvas"
    by (induction "surface canvas" arbitrary: canvas) (simp_all add: list_all_iff binarizePixel_fixed map_idI)
  with v show "convertToBinary canvas = Inr canvas"
    by (simp add: convertToBinary_valid)
qed

theorem binarize_idempotent_witness:
  "validCanvas maskCanvas \<and> list_all binaryPixel (surface maskCanvas) \<and>
   convertToBinary maskCanvas = Inr maskCanvas \<and>
   binarize (binarize [200, 100, 50, 255]) = binarize [200, 100, 50, 255]"
proof -
  have v: "validCanvas maskCanvas"
    by (simp add: validCanvas_def maskCanvas_def)
  have b: "list_all binaryPixel (surface maskCanvas)"
    by (simp add: binaryPixel_def maskCanvas_def)
  show ?thesis
    using binarize_idempotent [of "[200, 100, 50, 255]" maskCanvas] v b by simp
qed

subsection \<open>Point sampling\<close>

text \<open>
  C8, as claimed: sampling with \<open>n < 1\<close> fails. \<open>generateRandomPoints\<close> has no check of
  \<open>n\<close>: with \<open>n = 0\<close> it returns the empty list.
\<close>

theorem sample_count_zero_counterexample:
  "generateRandomPoints (fixedRandom 0) (createCanvas 10 10) 0 = Inr [] \<and>
   \<not> isl (generateRandomPoints (fixedRandom 0) (createCanvas 10 10) 0)"
  by (simp add: generateRandomPoints_def randomLoop.simps)

text \<open>
  C8, amended: sampling with \<open>n < 1\<close> raises nothing and returns no point, for every
  width and height and whatever the random source gives.
\<close>

theorem sample_count_below_one:
  assumes "n < 1"
  shows "generateRandomPoints random canvas n = Inr []"
  using assms by (simp add: generateRandomPoints_def randomLoop.simps)

theorem sample_count_below_one_witness:
  "(-2::int) < 1 \<and> generateRandomPoints (fixedRandom (1 / 2)) (createCanvas 10 10) (-2) = Inr []"
proof -
  have "(-2::int) < 1" by simp
  then show ?thesis
    using sample_count_below_one [of "-2" "fixedRandom (1 / 2)" "createCanvas 10 10"] by simp
qed

subsection \<open>The overlay and the counting loop, pixel by pixel\<close>

lemma map_enumerate_twice:
  "map (\<lambda>(k, v). f k v) (enumerate 0 (map (\<lambda>(k, v). g k v) (enumerate 0 xs))) =
   map (\<lambda>(k, v). f k (g k v)) (enumerate 0 xs)"
  by (rule nth_equalityI) (simp_all add: nth_enumerate_eq)

lemma drawPoint_surface:
  "drawPoint canvas p =
   canvas\<lparr>surface :=
     map (\<lambda>(k, dst). if covered (width canvas) p k then (255, 0, 0, 255) else dst)
       (enumerate 0 (surface canvas))\<rparr>"
proof -
  have "map (\<lambda>(k, dst). if covered (width canvas) p k then (255, 0, 0, 255) else dst)
          (enumerate 0 (surface canvas)) =
        map (\<lambda>(k, dst).
               if pixelInsideDisc 5 p (k mod width canvas) (k div width canvas) \<and>
                  pixelOutsideDisc 3 p (k mod width canvas) (k div width canvas)
               then (255, 0, 0, 255)
               else if pixelInsideDisc 4 p (k mod width canvas) (k div width canvas)
                    then (255, 0, 0, 255) else dst)
          (enumerate 0 (surface canvas))"
    by (rule map_cong) (auto simp: covered_def)
  then show ?thesis
    by (simp add: drawPoint_def stroke_def fill_def paint_def map_enumerate_twice)
qed

lemma foldl_drawPoint:
  "foldl drawPoint canvas pts =
   canvas\<lparr>surface :=
     map (\<lambda>(k, dst). if list_ex (\<lambda>p. covered (width canvas) p k) pts then (255, 0, 0, 255) else dst)
       (enumerate 0 (surface canvas))\<rparr>"
proof (induction pts arbitrary: canvas)
  case Nil
  have "map (\<lambda>(k, dst). dst) (enumerate 0 (surface canvas)) = surface canvas"
    by (rule nth_equalityI) (simp_all add: nth_enumerate_eq)
  then show ?case by simp
next
  case (Cons p pts)
  let ?w = "width canvas"
  have "foldl drawPoint canvas (p # pts) = foldl drawPoint (drawPoint canvas p) pts"
    by simp
  also have "\<dots> = (drawPoint canvas p)\<lparr>surface :=
      map (\<lambda>(k, dst). if list_ex (\<lambda>q. covered (width (drawPoint canvas p)) q k) pts
                              then (255, 0, 0, 255) else dst)
        (enumerate 0 (surface (drawPoint canvas p)))\<rparr>"
    by (rule Cons.IH)
  also have "\<dots> = canvas\<lparr>surface :=
      map (\<lambda>(k, dst). if list_ex (\<lambda>q. covered ?w q k) pts then (255, 0, 0, 255)
                              else if covered ?w p k then (255, 0, 0, 255) else dst)
        (enumerate 0 (surface canvas))\<rparr>"
    by (simp add: drawPoint_surface map_enumerate_twice)
  also have "map (\<lambda>(k, dst). if list_ex (\<lambda>q. covered ?w q k) pts then (255, 0, 0, 255)
                          else if covered ?w p k then (255, 0, 0, 255) else dst)
          (enumerate 0 (surface canvas)) =
        map (\<lambda>(k, dst). if list_ex (\<lambda>q. covered ?w q k) (p # pts) then (255, 0, 0, 255) else dst)
          (enumerate 0 (surface canvas))"
    by (rule map_cong) auto
  finally show ?case .
qed

lemma drawImage_createCanvas:
  "drawImage img (createCanvas (width img) (height img)) =
   \<lparr>width = width img, height = height img, surface = originalPixels img\<rparr>"
proof -
  have "map (\<lambda>(k, dst). composite (imagePixel img (k mod width img) (k div width img)) dst)
          (enumerate 0 (replicate (width img * height img) (0, 0, 0, 0))) =
        originalPixels img"
    unfolding originalPixels_def
    by (rule nth_equalityI) (simp_all add: nth_enumerate_eq)
  then show ?thesis
    by (simp add: drawImage_def createCanvas_def)
qed

lemma length_originalPixels [simp]: "length (originalPixels img) = width img * height img"
  by (simp add: originalPixels_def)

lemma length_markedPixels [simp]: "length (markedPixels img pts) = width img * height img"
  by (simp add: markedPixels_def)

lemma overlayImage_pixels:
  "overlayImage browser img pts =
   (if \<not> overlayContext browser then Inl NoCanvasContext
    else if width img = 0 \<or> height img = 0 then Inl IndexSizeError
    else Inr (\<lparr>width = width img, height = height img, data = flatten (markedPixels img pts)\<rparr>,
              \<lparr>width = width img, height = height img, data = flatten (originalPixels img)\<rparr>))"
  by (simp add: overlayImage_def drawImage_createCanvas foldl_drawPoint getImageData_def
      markedPixels_def Let_def)

lemma flatten_split:
  assumes "k < length ps" and "ps ! k = (r, g, b, a)"
  shows "flatten ps = flatten (take k ps) @ r # g # b # a # flatten (drop (Suc k) ps)"
proof -
  have "ps = take k ps @ (r, g, b, a) # drop (Suc k) ps"
    using assms id_take_nth_drop [of k ps] by simp
  then have "flatten ps = flatten (take k ps @ (r, g, b, a) # drop (Suc k) ps)"
    by simp
  then show ?thesis by simp
qed

lemma load_flatten:
  assumes "k < length ps" and "ps ! k = (r, g, b, a)"
  shows "load (flatten ps) (4 * k) = Some r"
    and "load (flatten ps) (4 * k + 1) = Some g"
    and "load (flatten ps) (4 * k + 2) = Some b"
proof -
  have len: "length (flatten (take k ps)) = 4 * k"
    using assms(1) by simp
  have "flatten ps ! (4 * k) = r" "flatten ps ! (4 * k + 1) = g" "flatten ps ! (4 * k + 2) = b"
    by (simp_all add: flatten_split [OF assms] nth_append len del: length_flatten)
  then show "load (flatten ps) (4 * k) = Some r"
    and "load (flatten ps) (4 * k + 1) = Some g"
    and "load (flatten ps) (4 * k + 2) = Some b"
    using assms(1) by (simp_all add: load_def)
qed

lemma countLoop_step:
  "i < length ov \<Longrightarrow>
   countLoop ov og i n =
   countLoop ov og (i + 4)
     (if load og i = Some 0 \<and> load og (i + 1) = Some 0 \<and> load og (i + 2) = Some 0 \<and>
         load ov i = Some 255 \<and> load ov (i + 1) = Some 0 \<and> load ov (i + 2) = Some 0
      then n + 1 else n)"
  by (subst countLoop.simps) (simp only: if_True)

lemma countLoop_flatten:
  "countLoop (flatten ov) (flatten og) (4 * k) n =
   n + length (filter (\<lambda>(original, overlay). counted original overlay) (drop k (zip og ov)))"
proof (induction "length ov - k" arbitrary: k n)
  case 0
  then show ?case
    by (subst countLoop.simps) simp
next
  case (Suc m)
  then have k: "k < length ov" by simp
  then have lt: "4 * k < length (flatten ov)" by simp
  obtain r' g' b' a' where ov: "ov ! k = (r', g', b', a')" by (cases "ov ! k") auto
  have step: "4 * k + 4 = 4 * Suc k" by simp
  have IH: "countLoop (flatten ov) (flatten og) (4 * Suc k) n' =
      n' + length (filter (\<lambda>(original, overlay). counted original overlay) (drop (Suc k) (zip og ov)))"
    for n'
    using Suc.hyps by (intro Suc.hyps(1)) simp
  show ?case
  proof (cases "k < length og")
    case True
    obtain r g b a where og: "og ! k = (r, g, b, a)" by (cases "og ! k") auto
    have c: "(load (flatten og) (4 * k) = Some 0 \<and> load (flatten og) (4 * k + 1) = Some 0 \<and>
              load (flatten og) (4 * k + 2) = Some 0 \<and> load (flatten ov) (4 * k) = Some 255 \<and>
              load (flatten ov) (4 * k + 1) = Some 0 \<and> load (flatten ov) (4 * k + 2) = Some 0) =
             counted (og ! k) (ov ! k)"
      by (simp only: load_flatten [OF k ov] load_flatten [OF True og] og ov counted_def
          prod.case option.inject)
    have d: "drop k (zip og ov) = (og ! k, ov ! k) # drop (Suc k) (zip og ov)"
      using k True by (simp add: Cons_nth_drop_Suc [symmetric])
    have "countLoop (flatten ov) (flatten og) (4 * k) n =
          countLoop (flatten ov) (flatten og) (4 * Suc k) (if counted (og ! k) (ov ! k) then n + 1 else n)"
      using countLoop_step [OF lt, of "flatten og" n] by (simp only: c step)
    also have "\<dots> = (if counted (og ! k) (ov ! k) then n + 1 else n) +
        length (filter (\<lambda>(original, overlay). counted original overlay) (drop (Suc k) (zip og ov)))"
      by (rule IH)
    also have "\<dots> = n +
        length (filter (\<lambda>(original, overlay). counted original overlay) (drop k (zip og ov)))"
      by (simp add: d)
    finally show ?thesis .
  next
    case False
    then have e: "drop k (zip og ov) = []" by simp
    have l: "load (flatten og) (4 * k) = None"
      using False by simp
    have "countLoop (flatten ov) (flatten og) (4 * k) n =
          countLoop (flatten ov) (flatten og) (4 * Suc k) n"
      using countLoop_step [OF lt, of "flatten og" n] by (simp only: l step) simp
    also have "\<dots> = n +
        length (filter (\<lambda>(original, overlay). counted original overlay) (drop (Suc k) (zip og ov)))"
      by (rule IH)
    finally show ?thesis
      using False by (simp add: e)
  qed
qed

lemma getPointsInside_pixels:
  "getPointsInside browser pts img =
   (if \<not> overlayContext browser then Inl NoCanvasContext
    else if width img = 0 \<or> height img = 0 then Inl IndexSizeError
    else Inr (\<lparr>width = width img, height = height img, data = flatten (markedPixels img pts)\<rparr>,
              length (filter (\<lambda>(original, overlay). counted original overlay)
                        (zip (originalPixels img) (markedPixels img pts)))))"
  using countLoop_flatten [of "markedPixels img pts" "originalPixels img" 0 0]
  by (simp add: getPointsInside_def overlayImage_pixels)

lemma counted_marked:
  "counted original (if c then (255, 0, 0, 255) else original) \<longleftrightarrow> stain original \<and> c"
  by (cases original) (auto simp: counted_def stain_def)

lemma zip_original_marked:
  "filter (\<lambda>(original, overlay). counted original overlay)
     (zip (originalPixels img) (markedPixels img pts)) =
   map (\<lambda>(k, original). (original, (255, 0, 0, 255)))
     (filter (\<lambda>(k, original). stain original \<and> list_ex (\<lambda>p. covered (width img) p k) pts)
        (enumerate 0 (originalPixels img)))"
proof -
  let ?c = "\<lambda>k. list_ex (\<lambda>p. covered (width img) p k) pts"
  have "zip (originalPixels img) (markedPixels img pts) =
        map (\<lambda>(k, original). (original, if ?c k then (255, 0, 0, 255) else original))
          (enumerate 0 (originalPixels img))"
    unfolding markedPixels_def
    by (rule nth_equalityI) (simp_all add: nth_enumerate_eq)
  then show ?thesis
    by (simp add: filter_map comp_def split_def counted_marked)
qed

lemma pointsInside_stain_under_marker:
  "getPointsInside browser pts img =
   (if \<not> overlayContext browser then Inl NoCanvasContext
    else if width img = 0 \<or> height img = 0 then Inl IndexSizeError
    else Inr (\<lparr>width = width img, height = height img, data = flatten (markedPixels img pts)\<rparr>,
              length (filter (\<lambda>(k, original). stain original \<and> list_ex (\<lambda>p. covered (width img) p k) pts)
                        (enumerate 0 (originalPixels img)))))"
  by (simp add: getPointsInside_pixels zip_original_marked)

lemma getPointsInside_count:
  "overlayContext browser \<Longrightarrow> 0 < width img \<Longrightarrow> 0 < height img \<Longrightarrow>
   map_sum id snd (getPointsInside browser pts img) =
   Inr (length (filter (\<lambda>(k, original). stain original \<and> list_ex (\<lambda>p. covered (width img) p k) pts)
                  (enumerate 0 (originalPixels img))))"
  by (simp add: pointsInside_stain_under_marker)

lemma pointsInside_le_pixels:
  assumes "getPointsInside browser pts img = Inr (overlayImageData, pointsInside)"
  shows "pointsInside \<le> width img * height img"
proof -
  let ?z = "zip (originalPixels img) (markedPixels img pts)"
  have "pointsInside = length (filter (\<lambda>(original, overlay). counted original overlay) ?z)"
    using assms by (simp add: getPointsInside_pixels split: if_splits)
  also have "\<dots> \<le> length ?z" by (rule length_filter_le)
  also have "\<dots> = width img * height img" by simp
  finally show ?thesis .
qed






lemma getResults_area:
  assumes "inputImage input = Some img" and "points input = Some pts" and "3 \<le> length pts"
    and "map_sum id snd (getPointsInside browser pts img) = Inr pointsInside"
    and "resultContext browser"
  shows "map area (snd (getResults browser input results)) =
         map area results @
         [estimate (fl (of_nat (width img) * of_nat (height img))) pointsInside (length pts)]"
  using assms
  by (cases "getPointsInside browser pts img") (auto simp: getResults_def addResult_def Let_def)

lemma getResults_error_cases:
  "fst (getResults browser input results) = Inl e \<Longrightarrow> snd (getResults browser input results) = results"
  by (auto simp: getResults_def Let_def split: option.splits if_splits sum.splits prod.splits)

lemma getResults_validation:
  "(\<exists>e. fst (getResults browser input results) = Inl e \<and> isValidationError e) \<longleftrightarrow>
   (inputImage input = None \<or> fewerThanThree (points input))"
  by (auto simp: getResults_def Let_def isValidationError_def fewerThanThree_def
      getPointsInside_pixels
      split: option.splits if_splits sum.splits prod.splits)

subsection \<open>Estimation\<close>

text \<open>
  C1. The claim bounds \<open>pointsInside\<close> by the number of points and the estimate by the
  area of the image. \<open>getPointsInside\<close> counts pixels, not points: on a 2 by 2 black
  image every pixel lies under the marker of each of the three points, so it returns 4
  for 3 points, and \<open>getResults\<close> reports 5.3333 for an image of area 4.
\<close>

theorem pointsInside_exceeds_points:
  "map_sum id snd (getPointsInside okBrowser threePoints blackImage2) = Inr 4 \<and>
   length threePoints = 3 \<and>
   map area (snd (getResults okBrowser \<lparr>points = Some threePoints, inputImage = Some blackImage2\<rparr> [])) =
     [Number (53333 / 10000)] \<and>
   fl (of_nat (width blackImage2) * of_nat (height blackImage2)) = 4 \<and>
   4 < Number (53333 / 10000)"
proof -
  have n: "map_sum id snd (getPointsInside okBrowser threePoints blackImage2) = Inr 4"
    by code_simp
  have l: "length threePoints = 3"
    by (simp add: threePoints_def)
  have t: "fl (of_nat (width blackImage2) * of_nat (height blackImage2)) = 4"
    by code_simp
  have e: "estimate 4 4 3 = Number (53333 / 10000)"
    by code_simp
  have "map area (snd (getResults okBrowser \<lparr>points = Some threePoints, inputImage = Some blackImage2\<rparr> [])) =
      [estimate (fl (of_nat (width blackImage2) * of_nat (height blackImage2))) 4 (length threePoints)]"
    using getResults_area [of "\<lparr>points = Some threePoints, inputImage = Some blackImage2\<rparr>"
        blackImage2 threePoints okBrowser 4 "[]"] n l
    by (simp add: okBrowser_def)
  moreover have "4 < Number (53333 / 10000)"
    by code_simp
  ultimately show ?thesis
    using n l t e by simp
qed

text \<open>
  C2. On the 10 by 10 black image, ten points within bounds whose markers cover the
  image give \<open>pointsInside = 100\<close>, not 10, and an estimate of 1000 for an image of
  area 100.
\<close>

theorem ten_points_count_every_pixel:
  "map_sum id snd (getPointsInside okBrowser tenPoints blackImage10) = Inr 100 \<and>
   length tenPoints = 10 \<and>
   list_all (\<lambda>p. 0 \<le> x p \<and> x p < 10 \<and> 0 \<le> y p \<and> y p < 10) tenPoints \<and>
   fl (of_nat (width blackImage10) * of_nat (height blackImage10)) = 100 \<and>
   map area (snd (getResults okBrowser \<lparr>points = Some tenPoints, inputImage = Some blackImage10\<rparr> [])) =
     [1000]"
proof -
  have c: "length (filter (\<lambda>(k, original). stain original \<and> list_ex (\<lambda>p. covered (width blackImage10) p k) tenPoints)
                        (enumerate 0 (originalPixels blackImage10))) = 100"
    by code_simp
  have n: "map_sum id snd (getPointsInside okBrowser tenPoints blackImage10) = Inr 100"
    using getPointsInside_count [of okBrowser blackImage10 tenPoints] c
    by (simp add: okBrowser_def blackImage10_def solidImage_def)
  have l: "length tenPoints = 10"
    by (simp add: tenPoints_def)
  have b: "list_all (\<lambda>p. 0 \<le> x p \<and> x p < 10 \<and> 0 \<le> y p \<and> y p < 10) tenPoints"
    by (simp add: tenPoints_def)
  have t: "fl (of_nat (width blackImage10) * of_nat (height blackImage10)) = 100"
    by code_simp
  have e: "estimate 100 100 10 = 1000"
    by code_simp
  have "map area (snd (getResults okBrowser \<lparr>points = Some tenPoints, inputImage = Some blackImage10\<rparr> [])) =
      [estimate (fl (of_nat (width blackImage10) * of_nat (height blackImage10))) 100 (length tenPoints)]"
    using getResults_area [of "\<lparr>points = Some tenPoints, inputImage = Some blackImage10\<rparr>"
        blackImage10 tenPoints okBrowser 100 "[]"] n l
    by (simp add: okBrowser_def)
  then show ?thesis
    using n l b t e by simp
qed




text \<open>
  C10. The counter of \<open>getPointsInside\<close> never exceeds the number of pixels of the
  image: the loop visits every pixel once and adds at most one for it. Where a context
  is there and the image is not empty, \<open>getPointsInside\<close> returns.
\<close>

theorem pointsInside_at_most_pixels:
  "(getPointsInside browser pts img = Inr (overlayImageData, pointsInside) \<longrightarrow>
      pointsInside \<le> width img * height img) \<and>
   (overlayContext browser \<and> 0 < width img \<and> 0 < height img \<longrightarrow>
      (\<exists>overlay n. getPointsInside browser pts img = Inr (overlay, n)))"
  by (auto simp: pointsInside_le_pixels) (simp add: getPointsInside_pixels)

theorem pointsInside_at_most_pixels_witness:
  "map_sum id snd (getPointsInside okBrowser threePoints (solidImage 2 2 (0, 0, 0, 255))) = Inr 4 \<and>
   (4::nat) \<le> width (solidImage 2 2 (0, 0, 0, 255)) * height (solidImage 2 2 (0, 0, 0, 255))"
proof -
  have e: "map_sum id snd (getPointsInside okBrowser threePoints (solidImage 2 2 (0, 0, 0, 255))) = Inr 4"
    by code_simp
  then obtain overlay where
    "getPointsInside okBrowser threePoints (solidImage 2 2 (0, 0, 0, 255)) = Inr (overlay, 4)"
    by (cases "getPointsInside okBrowser threePoints (solidImage 2 2 (0, 0, 0, 255))") auto
  with pointsInside_at_most_pixels [of okBrowser threePoints "solidImage 2 2 (0, 0, 0, 255)" overlay 4]
  have "(4::nat) \<le> width (solidImage 2 2 (0, 0, 0, 255)) * height (solidImage 2 2 (0, 0, 0, 255))"
    by simp
  with e show ?thesis by simp
qed

subsection \<open>Validation and the list of results\<close>

text \<open>
  C7. \<open>getResults\<close> throws one of its two validation errors exactly when the image is
  absent or fewer than three points are given (no point list counts as none), and
  whenever it throws, a validation error or any other, the list of results is what it was.
\<close>

theorem getResults_validation_errors:
  "((\<exists>e. fst (getResults browser input results) = Inl e \<and> isValidationError e) \<longleftrightarrow>
      (inputImage input = None \<or> fewerThanThree (points input))) \<and>
   (\<forall>e. fst (getResults browser input results) = Inl e \<longrightarrow>
      snd (getResults browser input results) = results)"
  using getResults_validation [of browser input results]
  by (auto dest: getResults_error_cases)

theorem getResults_validation_errors_witness:
  "fst (getResults okBrowser \<lparr>points = Some twoPoints, inputImage = Some (solidImage 2 2 (0, 0, 0, 255))\<rparr>
          [earlierResult]) = Inl PointsRequired \<and>
   snd (getResults okBrowser \<lparr>points = Some twoPoints, inputImage = Some (solidImage 2 2 (0, 0, 0, 255))\<rparr>
          [earlierResult]) = [earlierResult] \<and>
   fst (getResults okBrowser \<lparr>points = Some threePoints, inputImage = None\<rparr> [earlierResult]) =
     Inl ImageRequired"
proof -
  let ?input = "\<lparr>points = Some twoPoints, inputImage = Some (solidImage 2 2 (0, 0, 0, 255))\<rparr>"
  have e: "fst (getResults okBrowser ?input [earlierResult]) = Inl PointsRequired"
    by (simp add: getResults_def twoPoints_def)
  have "snd (getResults okBrowser ?input [earlierResult]) = [earlierResult]"
    using getResults_validation_errors [of okBrowser ?input "[earlierResult]"] e by blast
  moreover have "fst (getResults okBrowser \<lparr>points = Some threePoints, inputImage = None\<rparr> [earlierResult]) =
      Inl ImageRequired"
    by (simp add: getResults_def)
  ultimately show ?thesis using e by simp
qed

text \<open>
  C9. \<open>addResult\<close> puts the result at the end of the list and leaves what was there as
  it was and where it was. The two operations that write the list, \<open>addResult\<close> and
  \<open>getResults\<close>, only ever extend it: the old list is a prefix of the new one.
\<close>

theorem addResult_appends:
  "length (addResult result results) = Suc (length results) \<and>
   addResult result results ! length results = result \<and>
   take (length results) (addResult result results) = results \<and>
   prefix results (addResult result results) \<and>
   prefix results (snd (getResults browser input results))"
proof -
  have "prefix results (snd (getResults browser input results))"
    by (auto simp: getResults_def Let_def addResult_def
        split: option.splits if_splits sum.splits prod.splits)
  then show ?thesis
    by (simp add: addResult_def)
qed

end
